theory Spec2Isabelle
  imports Main
begin

section \<open>Python values\<close>

text \<open>
  The compliance toolkit (\<^verbatim>\<open>compliance_toolkit/utils.py\<close>) works on what \<^verbatim>\<open>json.load\<close>
  returns: \<^verbatim>\<open>None\<close>, booleans, integers, strings, lists and dictionaries (floats are left
  out). A dictionary is an association list in insertion order, looked up with \<open>map_of\<close>.
  A \<open>char\<close> stands for one character of a Python \<^verbatim>\<open>str\<close>, code points 0 to 255.
\<close>

datatype pyval =
    PNone
  | PBool bool
  | PInt int
  | PStr string
  | PList "pyval list"
  | PDict "(string \<times> pyval) list"

datatype py_error = KeyError string | TypeError | AttributeError | OSError | ValueError

text \<open>Truth value of an object, as \<^verbatim>\<open>if v:\<close> tests it.\<close>

fun truthy :: "pyval \<Rightarrow> bool" where
  "truthy PNone = False"
| "truthy (PBool b) = b"
| "truthy (PInt i) = (i \<noteq> 0)"
| "truthy (PStr s) = (s \<noteq> [])"
| "truthy (PList vs) = (vs \<noteq> [])"
| "truthy (PDict kvs) = (kvs \<noteq> [])"

text \<open>\<^verbatim>\<open>v[k]\<close> with a string key: only a dictionary can be indexed so, and a missing
  key raises \<^verbatim>\<open>KeyError\<close>.\<close>

fun py_index :: "pyval \<Rightarrow> string \<Rightarrow> py_error + pyval" where
  "py_index (PDict d) k = (case map_of d k of None \<Rightarrow> Inl (KeyError k) | Some v \<Rightarrow> Inr v)"
| "py_index _ k = Inl TypeError"

text \<open>\<^verbatim>\<open>d.get(k, default)\<close> on a dictionary, and on any object: only a dictionary has
  the method.\<close>

definition dict_get :: "(string \<times> pyval) list \<Rightarrow> string \<Rightarrow> pyval \<Rightarrow> pyval" where
  "dict_get d k dflt = (case map_of d k of None \<Rightarrow> dflt | Some v \<Rightarrow> v)"

fun py_get :: "pyval \<Rightarrow> string \<Rightarrow> pyval \<Rightarrow> py_error + pyval" where
  "py_get (PDict d) k dflt = Inr (dict_get d k dflt)"
| "py_get _ k dflt = Inl AttributeError"

text \<open>Iterating over an object: a list gives its elements, a string its characters, a
  dictionary its keys; anything else raises \<^verbatim>\<open>TypeError\<close>.\<close>

fun py_iter :: "pyval \<Rightarrow> py_error + pyval list" where
  "py_iter (PList vs) = Inr vs"
| "py_iter (PStr s) = Inr (map (\<lambda>c. PStr [c]) s)"
| "py_iter (PDict d) = Inr (map (\<lambda>kv. PStr (fst kv)) d)"
| "py_iter _ = Inl TypeError"

subsection \<open>Strings\<close>

text \<open>\<^verbatim>\<open>str.lower\<close> on code points below 256: the letters A to Z and the capital letters
  of Latin-1 (192 to 222 without the multiplication sign 215) move up by 32.\<close>

definition lower_char :: "char \<Rightarrow> char" where
  "lower_char c =
     (let n = (of_char c :: nat)
      in if (65 \<le> n \<and> n \<le> 90) \<or> (192 \<le> n \<and> n \<le> 222 \<and> n \<noteq> 215)
         then char_of (n + 32) else c)"

definition lower :: "string \<Rightarrow> string" where
  "lower s = map lower_char s"

text \<open>\<^verbatim>\<open>s.startswith(p)\<close>, \<^verbatim>\<open>s.endswith(suf)\<close>, \<^verbatim>\<open>s.endswith((suf1, ..., sufn))\<close> and
  \<^verbatim>\<open>k in data\<close> on strings.\<close>

fun startswith :: "string \<Rightarrow> string \<Rightarrow> bool" where
  "startswith s [] = True"
| "startswith [] (p # ps) = False"
| "startswith (c # cs) (p # ps) = (c = p \<and> startswith cs ps)"

definition endswith :: "string \<Rightarrow> string \<Rightarrow> bool" where
  "endswith s suf = startswith (rev s) (rev suf)"

fun endswith_any :: "string \<Rightarrow> string list \<Rightarrow> bool" where
  "endswith_any s [] = False"
| "endswith_any s (suf # sufs) = (if endswith s suf then True else endswith_any s sufs)"

fun str_in :: "string \<Rightarrow> string \<Rightarrow> bool" where
  "str_in k [] = (k = [])"
| "str_in k (c # cs) = (if startswith (c # cs) k then True else str_in k cs)"

text \<open>Decimal digits of a natural number and of an integer, as \<^verbatim>\<open>str\<close> prints them.\<close>

fun show_nat :: "nat \<Rightarrow> string" where
  "show_nat n =
     (if n < 10 then [''0123456789'' ! n]
      else show_nat (n div 10) @ [''0123456789'' ! (n mod 10)])"

declare show_nat.simps [simp del]

definition show_int :: "int \<Rightarrow> string" where
  "show_int i = (if i < 0 then ''-'' @ show_nat (nat (- i)) else show_nat (nat i))"

text \<open>\<^verbatim>\<open>sep.join(xs)\<close>, and the string \<^verbatim>\<open>'\n'\<close>.\<close>

fun join :: "string \<Rightarrow> string list \<Rightarrow> string" where
  "join sep [] = []"
| "join sep [x] = x"
| "join sep (x # y # ys) = x @ sep @ join sep (y # ys)"

definition newline :: string where
  "newline = [char_of (10::nat)]"

text \<open>\<^verbatim>\<open>repr\<close> of a string: double quotes when the string has a single quote and no
  double quote, single quotes otherwise; the quote in use and the backslash are escaped,
  tab, newline and carriage return are written \<^verbatim>\<open>\t\<close>, \<^verbatim>\<open>\n\<close>, \<^verbatim>\<open>\r\<close>, and every other
  character that is not printable (below 32, 127 to 160, and 173) as \<^verbatim>\<open>\xhh\<close>.\<close>

definition hex2 :: "nat \<Rightarrow> string" where
  "hex2 n = [''0123456789abcdef'' ! ((n div 16) mod 16), ''0123456789abcdef'' ! (n mod 16)]"

definition repr_char :: "char \<Rightarrow> char \<Rightarrow> string" where
  "repr_char quote c =
     (let n = (of_char c :: nat)
      in if c = quote \<or> n = 92 then [char_of (92::nat), c]
         else if n = 9 then [char_of (92::nat), CHR ''t'']
         else if n = 10 then [char_of (92::nat), CHR ''n'']
         else if n = 13 then [char_of (92::nat), CHR ''r'']
         else if n < 32 \<or> (127 \<le> n \<and> n \<le> 160) \<or> n = 173
           then [char_of (92::nat), CHR ''x''] @ hex2 n
         else [c])"

definition repr_str :: "string \<Rightarrow> string" where
  "repr_str s =
     (let squote = char_of (39::nat); dquote = char_of (34::nat);
          quote = (if squote \<in> set s \<and> dquote \<notin> set s then dquote else squote)
      in [quote] @ concat (map (repr_char quote) s) @ [quote])"

text \<open>\<^verbatim>\<open>repr(v)\<close>, and \<^verbatim>\<open>str(v)\<close>, which is what an f-string field \<^verbatim>\<open>{v}\<close> inserts: a
  string as it is, everything else as its \<^verbatim>\<open>repr\<close>.\<close>

primrec py_repr :: "pyval \<Rightarrow> string" where
  "py_repr PNone = ''None''"
| "py_repr (PBool b) = (if b then ''True'' else ''False'')"
| "py_repr (PInt i) = show_int i"
| "py_repr (PStr s) = repr_str s"
| "py_repr (PList vs) = ''['' @ join '', '' (map py_repr vs) @ '']''"
| "py_repr (PDict kvs) =
     ''{'' @ join '', '' (map (\<lambda>kr. repr_str (fst kr) @ '': '' @ snd kr) (map (map_prod id py_repr) kvs))
     @ ''}''"

fun py_str :: "pyval \<Rightarrow> string" where
  "py_str (PStr s) = s"
| "py_str v = py_repr v"

section \<open>The checklist loader\<close>

text \<open>
  What \<^verbatim>\<open>load_checklists\<close> sees of the directory at a path: \<^verbatim>\<open>os.path.isdir\<close> is false
  (\<open>NoDir\<close>); or it is a directory that \<^verbatim>\<open>os.listdir\<close> cannot list, and raises
  (\<open>Unlistable\<close>); or \<^verbatim>\<open>os.listdir\<close> returns names, each with the outcome of opening the
  file and \<^verbatim>\<open>json.load\<close> on it: \<open>None\<close> when either raises, the loaded value otherwise.
\<close>

datatype checklist_dir = NoDir | Unlistable | Listing "(string \<times> pyval option) list"

text \<open>The loop over the file names (lines 10 to 19), with the list \<^verbatim>\<open>checklists\<close> as
  accumulator. \<^verbatim>\<open>checklists.extend(items)\<close> iterates over \<^verbatim>\<open>items\<close>; when that raises, the
  \<^verbatim>\<open>except\<close> clause moves on to the next file.\<close>

fun load_files :: "(string \<times> pyval option) list \<Rightarrow> pyval list \<Rightarrow> pyval list" where
  "load_files [] checklists = checklists"
| "load_files ((fname, loaded) # rest) checklists =
     (if \<not> endswith fname ''.json'' then load_files rest checklists
      else case loaded of
             None \<Rightarrow> load_files rest checklists
           | Some items \<Rightarrow>
               (case py_iter items of
                  Inl e \<Rightarrow> load_files rest checklists
                | Inr xs \<Rightarrow> load_files rest (checklists @ xs)))"

definition load_checklists :: "(string \<Rightarrow> checklist_dir) \<Rightarrow> string \<Rightarrow> py_error + pyval list" where
  "load_checklists fs path =
     (case fs path of
        NoDir \<Rightarrow> Inr []
      | Unlistable \<Rightarrow> Inl OSError
      | Listing names \<Rightarrow> Inr (load_files names []))"

section \<open>The repository scanner\<close>

text \<open>
  A directory entry is a file, with what opening it and reading it as text gives (\<open>None\<close>
  when that raises), a directory with its listing (\<open>None\<close> when it cannot be listed), or a
  symbolic link to a directory. The file system gives the listing of the directory at a path,
  \<open>None\<close> when there is no directory to list there.
\<close>

datatype entry =
    File "string option"
  | Dir "(string \<times> entry) list option"
  | DirLink

type_synonym filesystem = "string \<Rightarrow> (string \<times> entry) list option"

text \<open>\<^verbatim>\<open>os.walk\<close>, top down, without following links and with errors of listing ignored: for each
  directory that can be listed it yields the names of its subdirectories and its other
  entries, then walks the subdirectories in order. The model yields each file with the
  outcome of reading it, and leaves out the directory's path, used only to open the file.\<close>

fun is_dir :: "entry \<Rightarrow> bool" where
  "is_dir (File c) = False"
| "is_dir (Dir l) = True"
| "is_dir DirLink = True"

fun nondirs :: "(string \<times> entry) list \<Rightarrow> (string \<times> string option) list" where
  "nondirs [] = []"
| "nondirs ((fn, File c) # es) = (fn, c) # nondirs es"
| "nondirs ((fn, e) # es) = nondirs es"

definition dirnames :: "(string \<times> entry) list \<Rightarrow> string list" where
  "dirnames es = map fst (filter (\<lambda>ne. is_dir (snd ne)) es)"

fun walk :: "entry \<Rightarrow> (string list \<times> (string \<times> string option) list) list"
  and walk_dirs :: "(string \<times> entry) list \<Rightarrow> (string list \<times> (string \<times> string option) list) list"
where
  "walk (Dir (Some es)) = (dirnames es, nondirs es) # walk_dirs es"
| "walk (Dir None) = []"
| "walk (File c) = []"
| "walk DirLink = []"
| "walk_dirs [] = []"
| "walk_dirs ((fn, e) # es) = walk e @ walk_dirs es"

text \<open>\<^verbatim>\<open>os.walk\<close> swallows only \<^verbatim>\<open>OSError\<close>. A root string with an embedded NUL character makes
  the first listing raise \<^verbatim>\<open>ValueError\<close>, which \<^verbatim>\<open>os.walk\<close> lets through; every other root is
  walked, and yields nothing when there is no directory to list.\<close>

definition os_walk ::
  "filesystem \<Rightarrow> string \<Rightarrow> py_error + (string list \<times> (string \<times> string option) list) list" where
  "os_walk fs root =
     (if CHR 0x00 \<in> set root then Inl ValueError else Inr (walk (Dir (fs root))))"

definition binary_extensions :: "string list" where
  "binary_extensions = [''.png'', ''.jpg'', ''.jpeg'', ''.gif'', ''.class'']"

text \<open>\<^verbatim>\<open>[k.lower() for k in keywords]\<close>: the argument must be iterable and each element a
  string.\<close>

fun lower_each :: "pyval list \<Rightarrow> py_error + string list" where
  "lower_each [] = Inr []"
| "lower_each (PStr k # ks) =
     (case lower_each ks of Inl e \<Rightarrow> Inl e | Inr ls \<Rightarrow> Inr (lower k # ls))"
| "lower_each (v # ks) = Inl AttributeError"

definition low_kw_of :: "pyval \<Rightarrow> py_error + string list" where
  "low_kw_of keywords = (case py_iter keywords of Inl e \<Rightarrow> Inl e | Inr ks \<Rightarrow> lower_each ks)"

text \<open>The three nested loops (lines 26 to 38). Each returns \<open>True\<close> where the source executes
  \<^verbatim>\<open>return True\<close>, and \<open>False\<close> where the loop runs to its end.\<close>

fun any_keyword_in :: "string list \<Rightarrow> string \<Rightarrow> bool" where
  "any_keyword_in [] data = False"
| "any_keyword_in (k # ks) data = (if str_in k data then True else any_keyword_in ks data)"

fun scan_files :: "string list \<Rightarrow> (string \<times> string option) list \<Rightarrow> bool" where
  "scan_files low_kw [] = False"
| "scan_files low_kw ((fn, opened) # files) =
     (if endswith_any fn binary_extensions then scan_files low_kw files
      else case opened of
             None \<Rightarrow> scan_files low_kw files
           | Some text \<Rightarrow>
               (if any_keyword_in low_kw (lower text) then True
                else scan_files low_kw files))"

fun scan_walk :: "string list \<Rightarrow> (string list \<times> (string \<times> string option) list) list \<Rightarrow> bool" where
  "scan_walk low_kw [] = False"
| "scan_walk low_kw ((dirs, files) # more) =
     (if scan_files low_kw files then True else scan_walk low_kw more)"

text \<open>The walk of line 26 is outside the \<^verbatim>\<open>try\<close> block of lines 30 to 38: what it raises ends
  the scan.\<close>

definition scan_repo_for_keywords :: "filesystem \<Rightarrow> string \<Rightarrow> pyval \<Rightarrow> py_error + bool" where
  "scan_repo_for_keywords fs repo_path keywords =
     (case low_kw_of keywords of
        Inl e \<Rightarrow> Inl e
      | Inr low_kw \<Rightarrow>
          (case os_walk fs repo_path of
             Inl e \<Rightarrow> Inl e
           | Inr found \<Rightarrow> Inr (scan_walk low_kw found)))"

section \<open>The auditor\<close>

text \<open>The loop of \<^verbatim>\<open>audit_repo\<close> with the list \<^verbatim>\<open>results\<close> as accumulator. An item that is not
  a dictionary has no \<^verbatim>\<open>get\<close>, and an exception of the scanner is not caught.\<close>

fun audit_loop :: "filesystem \<Rightarrow> string \<Rightarrow> pyval list \<Rightarrow> pyval list \<Rightarrow> py_error + pyval list" where
  "audit_loop fs repo_path [] results = Inr results"
| "audit_loop fs repo_path (PDict item # rest) results =
     (case scan_repo_for_keywords fs repo_path (dict_get item ''keywords'' (PList [])) of
        Inl e \<Rightarrow> Inl e
      | Inr present \<Rightarrow>
          audit_loop fs repo_path rest
            (results @
             [PDict [(''id'', dict_get item ''id'' PNone),
                     (''title'', dict_get item ''title'' PNone),
                     (''description'', dict_get item ''description'' PNone),
                     (''present'', PBool present),
                     (''remediation'', dict_get item ''remediation'' PNone)]]))"
| "audit_loop fs repo_path (item # rest) results = Inl AttributeError"

definition audit_repo :: "filesystem \<Rightarrow> string \<Rightarrow> pyval list \<Rightarrow> py_error + pyval list" where
  "audit_repo fs repo_path checklists = audit_loop fs repo_path checklists []"

section \<open>The report generator\<close>

text \<open>The state of \<^verbatim>\<open>generate_markdown_report\<close>: its argument \<^verbatim>\<open>results\<close>, a list the caller
  shares, and its local list \<^verbatim>\<open>lines\<close>.\<close>

record render_state =
  results :: "pyval list"
  lines :: "string list"

definition append_line :: "string \<Rightarrow> render_state \<Rightarrow> render_state" where
  "append_line l s = s\<lparr>lines := lines s @ [l]\<rparr>"

text \<open>\<^verbatim>\<open>sum(1 for r in results if r['present'])\<close>.\<close>

fun count_present :: "pyval list \<Rightarrow> py_error + nat" where
  "count_present [] = Inr 0"
| "count_present (r # rs) =
     (case py_index r ''present'' of
        Inl e \<Rightarrow> Inl e
      | Inr p \<Rightarrow>
          (case count_present rs of
             Inl e \<Rightarrow> Inl e
           | Inr n \<Rightarrow> Inr ((if truthy p then 1 else 0) + n)))"

text \<open>The body of the loop over the results (lines 63 to 69), and the loop.\<close>

definition render_result :: "pyval \<Rightarrow> render_state \<Rightarrow> py_error + render_state" where
  "render_result r s =
     (case py_index r ''present'' of
        Inl e \<Rightarrow> Inl e
      | Inr p \<Rightarrow>
     (case py_index r ''id'' of
        Inl e \<Rightarrow> Inl e
      | Inr i \<Rightarrow>
     (case py_index r ''title'' of
        Inl e \<Rightarrow> Inl e
      | Inr t \<Rightarrow>
     (case py_get r ''description'' (PStr []) of
        Inl e \<Rightarrow> Inl e
      | Inr d \<Rightarrow>
          (let status = (if truthy p then ''PASS'' else ''FAIL'');
               s1 = append_line (''## '' @ py_str i @ '' - '' @ py_str t @ ''  '') s;
               s2 = append_line (''- Status: **'' @ status @ ''**'') s1;
               s3 = append_line (''- Description: '' @ py_str d) s2
           in if \<not> truthy p
              then (case py_get r ''remediation'' (PStr []) of
                      Inl e \<Rightarrow> Inl e
                    | Inr m \<Rightarrow>
                        Inr (append_line [] (append_line (''- Remediation: '' @ py_str m) s3)))
              else Inr (append_line [] s3))))))"

fun render_loop :: "pyval list \<Rightarrow> render_state \<Rightarrow> py_error + render_state" where
  "render_loop [] s = Inr s"
| "render_loop (r # rs) s =
     (case render_result r s of Inl e \<Rightarrow> Inl e | Inr s' \<Rightarrow> render_loop rs s')"

definition render_run :: "pyval list \<Rightarrow> string \<Rightarrow> py_error + render_state" where
  "render_run rs title =
     (let s0 = \<lparr>results = rs, lines = [''# '' @ title, []]\<rparr>
      in case count_present (results s0) of
           Inl e \<Rightarrow> Inl e
         | Inr passed \<Rightarrow>
             (let s1 = append_line (''- Total checks: '' @ show_nat (length (results s0))) s0;
                  s2 = append_line (''- Checks detected (heuristic pass): '' @ show_nat passed) s1;
                  s3 = append_line [] s2
              in render_loop (results s3) s3))"

definition generate_markdown_report :: "pyval list \<Rightarrow> string \<Rightarrow> py_error + string" where
  "generate_markdown_report rs title =
     (case render_run rs title of
        Inl e \<Rightarrow> Inl e
      | Inr s \<Rightarrow> Inr (join newline (lines s)))"

section \<open>Notions of the specification\<close>

text \<open>A file is reachable from a directory when it is an entry of it, or reachable from a
  subdirectory that can be listed. A link to a directory leads nowhere.\<close>

inductive reachable_file :: "(string \<times> entry) list \<Rightarrow> string \<Rightarrow> string option \<Rightarrow> bool" where
  here: "(fn, File c) \<in> set es \<Longrightarrow> reachable_file es fn c"
| below: "(d, Dir (Some sub)) \<in> set es \<Longrightarrow> reachable_file sub fn c \<Longrightarrow> reachable_file es fn c"

code_pred reachable_file .

text \<open>The directory a root names: a string with an embedded NUL character is no path and names
  none; any other string names what the file system has there.\<close>

definition root_listing :: "filesystem \<Rightarrow> string \<Rightarrow> (string \<times> entry) list option" where
  "root_listing fs root = (if CHR 0x00 \<in> set root then None else fs root)"

text \<open>A keyword hit in one file: the name has no excluded extension, the file can be read,
  and one of the lower-cased keywords occurs in its lower-cased content.\<close>

definition file_hit :: "string list \<Rightarrow> string \<times> string option \<Rightarrow> bool" where
  "file_hit low_kw f =
     (\<not> endswith_any (fst f) binary_extensions \<and>
      (case snd f of None \<Rightarrow> False | Some text \<Rightarrow> any_keyword_in low_kw (lower text)))"

text \<open>The items one entry of the checklist directory contributes: those of a file named
  \<^verbatim>\<open>*.json\<close> that loads to something iterable, none otherwise.\<close>

definition file_items :: "string \<times> pyval option \<Rightarrow> pyval list" where
  "file_items f =
     (if endswith (fst f) ''.json''
      then (case snd f of
              None \<Rightarrow> []
            | Some items \<Rightarrow> (case py_iter items of Inl e \<Rightarrow> [] | Inr xs \<Rightarrow> xs))
      else [])"

text \<open>A Checklist Item is a dictionary whose \<^verbatim>\<open>keywords\<close>, when the key is there, is a list
  of strings.\<close>

fun is_str :: "pyval \<Rightarrow> bool" where
  "is_str (PStr s) = True"
| "is_str _ = False"

fun is_checklist_item :: "pyval \<Rightarrow> bool" where
  "is_checklist_item (PDict d) =
     (case map_of d ''keywords'' of
        None \<Rightarrow> True
      | Some (PList ks) \<Rightarrow> list_all is_str ks
      | Some _ \<Rightarrow> False)"
| "is_checklist_item _ = False"

text \<open>The Audit Result of an item: the four fields copied, \<^verbatim>\<open>None\<close> for a missing one, and
  \<^verbatim>\<open>present\<close> true exactly when the scanner returns \<^verbatim>\<open>True\<close> for the item's keywords.\<close>

fun audit_result :: "filesystem \<Rightarrow> string \<Rightarrow> pyval \<Rightarrow> pyval" where
  "audit_result fs root (PDict item) =
     PDict [(''id'', dict_get item ''id'' PNone),
            (''title'', dict_get item ''title'' PNone),
            (''description'', dict_get item ''description'' PNone),
            (''present'',
               PBool (scan_repo_for_keywords fs root (dict_get item ''keywords'' (PList [])) = Inr True)),
            (''remediation'', dict_get item ''remediation'' PNone)]"
| "audit_result fs root v = PNone"

text \<open>A field of a result, with a default for a missing key; whether a result counts as
  present; and whether it has the three keys the report reads by index.\<close>

fun field :: "pyval \<Rightarrow> string \<Rightarrow> pyval \<Rightarrow> pyval" where
  "field (PDict d) k dflt = dict_get d k dflt"
| "field v k dflt = dflt"

definition is_present :: "pyval \<Rightarrow> bool" where
  "is_present r = truthy (field r ''present'' PNone)"

fun renderable :: "pyval \<Rightarrow> bool" where
  "renderable (PDict d) =
     (map_of d ''present'' \<noteq> None \<and> map_of d ''id'' \<noteq> None \<and> map_of d ''title'' \<noteq> None)"
| "renderable v = False"

text \<open>The report as the specification describes it: a heading and a summary block, then one
  section per result: header, status line, description line, a remediation line only when
  the result is not present, and an empty line.\<close>

definition header_lines :: "pyval list \<Rightarrow> string \<Rightarrow> string list" where
  "header_lines rs title =
     [''# '' @ title,
      [],
      ''- Total checks: '' @ show_nat (length rs),
      ''- Checks detected (heuristic pass): '' @ show_nat (length (filter is_present rs)),
      []]"

definition section_lines :: "pyval \<Rightarrow> string list" where
  "section_lines r =
     [''## '' @ py_str (field r ''id'' PNone) @ '' - '' @ py_str (field r ''title'' PNone) @ ''  '',
      ''- Status: **'' @ (if is_present r then ''PASS'' else ''FAIL'') @ ''**'',
      ''- Description: '' @ py_str (field r ''description'' (PStr []))]
     @ (if is_present r then [] else [''- Remediation: '' @ py_str (field r ''remediation'' (PStr []))])
     @ [[]]"

section \<open>Example inputs\<close>

text \<open>Repositories: one with a readable text file, an image and a subdirectory holding a file
  that cannot be read; one with images only; one with a single empty file; one with nothing;
  and a root string with an embedded NUL character. Checklist items
  with keywords, without the key, and with the empty string among the keywords. Results as
  the auditor builds them, and one without the key \<^verbatim>\<open>id\<close>. Checklist directories: one that
  exists and cannot be listed, one with files that load and files that do not, and one with
  a file that holds a JSON string.\<close>

definition example_fs :: filesystem where
  "example_fs p =
     (if p = ''repo''
      then Some [(''README.md'', File (Some ''This project is MIT License'')),
                 (''logo.png'', File (Some ''license'')),
                 (''src'', Dir (Some [(''locked.txt'', File None)]))]
      else None)"

definition images_fs :: filesystem where
  "images_fs p =
     (if p = ''repo''
      then Some [(''logo.png'', File (Some ''license'')),
                 (''img'', Dir (Some [(''photo.jpeg'', File (Some ''license''))]))]
      else None)"

definition empty_file_fs :: filesystem where
  "empty_file_fs p = (if p = ''repo'' then Some [(''empty.txt'', File (Some []))] else None)"

definition nul_root :: string where
  "nul_root = [CHR ''a'', CHR 0x00, CHR ''b'']"

definition bare_fs :: filesystem where
  "bare_fs p = None"

definition license_item :: pyval where
  "license_item =
     PDict [(''id'', PStr ''C1''), (''title'', PStr ''Has license''),
            (''keywords'', PList [PStr ''license'']), (''remediation'', PStr ''Add LICENSE file'')]"

definition no_keywords_item :: pyval where
  "no_keywords_item = PDict [(''id'', PStr ''C2''), (''title'', PStr ''Has audit'')]"

definition blank_keyword_item :: pyval where
  "blank_keyword_item = PDict [(''id'', PStr ''C3''), (''keywords'', PList [PStr ''audit'', PStr []])]"

definition license_pass :: pyval where
  "license_pass =
     PDict [(''id'', PStr ''C1''), (''title'', PStr ''Has license''), (''description'', PNone),
            (''present'', PBool True), (''remediation'', PStr ''Add LICENSE file'')]"

definition license_fail :: pyval where
  "license_fail =
     PDict [(''id'', PStr ''C1''), (''title'', PStr ''Has license''),
            (''present'', PBool False), (''remediation'', PStr ''Add LICENSE file'')]"

definition result_without_id :: pyval where
  "result_without_id = PDict [(''title'', PStr ''Has license''), (''present'', PBool True)]"

definition unlistable_dir :: "string \<Rightarrow> checklist_dir" where
  "unlistable_dir p = (if p = ''checklists'' then Unlistable else NoDir)"

definition mixed_dir :: "string \<Rightarrow> checklist_dir" where
  "mixed_dir p =
     (if p = ''checklists''
      then Listing [(''broken.json'', None), (''notes.txt'', Some (PList [PStr ''x''])),
                    (''number.json'', Some (PInt 5)), (''good.json'', Some (PList [license_item]))]
      else NoDir)"

definition string_file_dir :: "string \<Rightarrow> checklist_dir" where
  "string_file_dir p =
     (if p = ''checklists'' then Listing [(''note.json'', Some (PStr ''ab''))] else NoDir)"

section \<open>Strings\<close>

lemma startswith_iff: "startswith s p \<longleftrightarrow> (\<exists>t. s = p @ t)"
  by (induction s p rule: startswith.induct) auto

lemma endswith_iff: "endswith s suf \<longleftrightarrow> (\<exists>p. s = p @ suf)"
proof
  assume "endswith s suf"
  then obtain t where "rev s = rev suf @ t"
    by (auto simp: endswith_def startswith_iff)
  then have "s = rev t @ suf"
    by (metis rev_append rev_rev_ident)
  then show "\<exists>p. s = p @ suf" ..
next
  assume "\<exists>p. s = p @ suf"
  then show "endswith s suf"
    by (auto simp: endswith_def startswith_iff)
qed

lemma endswith_any_iff: "endswith_any s sufs \<longleftrightarrow> (\<exists>suf\<in>set sufs. \<exists>p. s = p @ suf)"
  by (induction sufs) (auto simp: endswith_iff)

text \<open>\<^verbatim>\<open>k in data\<close> holds exactly when \<open>k\<close> is a contiguous part of \<open>data\<close>.\<close>

lemma str_in_iff: "str_in k d \<longleftrightarrow> (\<exists>p s. d = p @ k @ s)"
proof (induction d)
  case Nil
  then show ?case by auto
next
  case (Cons c cs)
  show ?case
  proof
    assume "str_in k (c # cs)"
    then consider "startswith (c # cs) k" | "str_in k cs"
      by (auto split: if_splits)
    then show "\<exists>p s. c # cs = p @ k @ s"
    proof cases
      case 1
      then obtain t where "c # cs = k @ t" by (auto simp: startswith_iff)
      then have "c # cs = [] @ k @ t" by simp
      then show ?thesis by blast
    next
      case 2
      then obtain p s where "cs = p @ k @ s" using Cons.IH by auto
      then have "c # cs = (c # p) @ k @ s" by simp
      then show ?thesis by blast
    qed
  next
    assume "\<exists>p s. c # cs = p @ k @ s"
    then obtain p s where ps: "c # cs = p @ k @ s" by auto
    show "str_in k (c # cs)"
    proof (cases p)
      case Nil
      with ps have "startswith (c # cs) k" by (auto simp: startswith_iff)
      then show ?thesis by simp
    next
      case (Cons a p')
      with ps have "cs = p' @ k @ s" by simp
      then have "str_in k cs" using Cons.IH by auto
      then show ?thesis by simp
    qed
  qed
qed

lemma any_keyword_in_iff: "any_keyword_in ks d \<longleftrightarrow> (\<exists>k\<in>set ks. str_in k d)"
  by (induction ks) auto

section \<open>The scanner finds exactly the hits in reachable files\<close>

lemma scan_files_iff: "scan_files low_kw files \<longleftrightarrow> (\<exists>f\<in>set files. file_hit low_kw f)"
  by (induction low_kw files rule: scan_files.induct) (auto simp: file_hit_def split: option.splits)

lemma scan_walk_iff:
  "scan_walk low_kw ys \<longleftrightarrow> (\<exists>y\<in>set ys. \<exists>f\<in>set (snd y). file_hit low_kw f)"
  by (induction low_kw ys rule: scan_walk.induct) (auto simp: scan_files_iff)

lemma set_nondirs: "(fn, c) \<in> set (nondirs es) \<longleftrightarrow> (fn, File c) \<in> set es"
  by (induction es rule: nondirs.induct) auto

lemma walk_reachable:
  "(\<exists>y\<in>set (walk e). (fn, c) \<in> set (snd y)) \<longleftrightarrow> (\<exists>es. e = Dir (Some es) \<and> reachable_file es fn c)"
  "(\<exists>y\<in>set (walk_dirs es). (fn, c) \<in> set (snd y)) \<longleftrightarrow>
     (\<exists>d sub. (d, Dir (Some sub)) \<in> set es \<and> reachable_file sub fn c)"
proof (induction e and es rule: walk_walk_dirs.induct)
  case (1 es)
  show ?case
  proof
    assume "\<exists>y\<in>set (walk (Dir (Some es))). (fn, c) \<in> set (snd y)"
    then consider "(fn, c) \<in> set (nondirs es)" | "\<exists>y\<in>set (walk_dirs es). (fn, c) \<in> set (snd y)"
      by auto
    then have "reachable_file es fn c"
    proof cases
      case 1
      then show ?thesis by (simp add: set_nondirs here)
    next
      case 2
      then show ?thesis using "1.IH" by (auto intro: below)
    qed
    then show "\<exists>es'. Dir (Some es) = Dir (Some es') \<and> reachable_file es' fn c" by simp
  next
    assume "\<exists>es'. Dir (Some es) = Dir (Some es') \<and> reachable_file es' fn c"
    then have "reachable_file es fn c" by simp
    then show "\<exists>y\<in>set (walk (Dir (Some es))). (fn, c) \<in> set (snd y)"
    proof cases
      case here
      then show ?thesis by (simp add: set_nondirs)
    next
      case (below d sub)
      then show ?thesis using "1.IH" by auto
    qed
  qed
next
  case (6 fn' e es)
  then show ?case by (auto; blast)
qed auto

lemma lower_each_strs: "lower_each (map PStr ks) = Inr (map lower ks)"
  by (induction ks) auto

lemma strs_are_map: "list_all is_str vs \<Longrightarrow> \<exists>ks. vs = map PStr ks"
proof (induction vs)
  case Nil
  then show ?case by simp
next
  case (Cons v vs)
  then obtain ks where ks: "vs = map PStr ks" by auto
  from Cons.prems obtain k where "v = PStr k" by (cases v) auto
  with ks have "v # vs = map PStr (k # ks)" by simp
  then show ?case by (rule exI)
qed

lemma list_all_is_str_map: "list_all is_str (map PStr ks)"
  by (induction ks) auto

lemma walk_root_reachable:
  "CHR 0x00 \<notin> set root \<Longrightarrow>
     (\<exists>y\<in>set (walk (Dir (fs root))). (fn, c) \<in> set (snd y)) \<longleftrightarrow>
     (\<exists>es. root_listing fs root = Some es \<and> reachable_file es fn c)"
  by (simp only: walk_reachable(1)) (auto simp: root_listing_def)

lemma scan_walk_reachable:
  assumes "CHR 0x00 \<notin> set root"
  shows "scan_walk low_kw (walk (Dir (fs root))) \<longleftrightarrow>
     (\<exists>es fn c. root_listing fs root = Some es \<and> reachable_file es fn c \<and> file_hit low_kw (fn, c))"
proof -
  have "scan_walk low_kw (walk (Dir (fs root))) \<longleftrightarrow>
          (\<exists>fn c. (\<exists>y\<in>set (walk (Dir (fs root))). (fn, c) \<in> set (snd y)) \<and>
                  file_hit low_kw (fn, c))"
    by (auto simp: scan_walk_iff)
  then show ?thesis
    by (simp only: walk_root_reachable [OF assms]) blast
qed

lemma file_hit_iff:
  "file_hit (map lower ks) (fn, c) \<longleftrightarrow>
     (\<not> endswith_any fn binary_extensions \<and>
      (\<exists>text. c = Some text \<and> (\<exists>k\<in>set ks. \<exists>p s. lower text = p @ lower k @ s)))"
  by (auto simp: file_hit_def any_keyword_in_iff str_in_iff split: option.splits)

text \<open>The scanner on a list of keyword strings: the error of the walk at a root with a NUL
  character, and otherwise whether a reachable file holds a keyword.\<close>

lemma scan_repo_nul:
  "CHR 0x00 \<in> set root \<Longrightarrow>
     scan_repo_for_keywords fs root (PList (map PStr ks)) = Inl ValueError"
  by (simp add: scan_repo_for_keywords_def low_kw_of_def lower_each_strs os_walk_def)

lemma scan_repo_strs:
  assumes "CHR 0x00 \<notin> set root"
  shows "scan_repo_for_keywords fs root (PList (map PStr ks)) =
     Inr (\<exists>es fn text. root_listing fs root = Some es \<and> reachable_file es fn (Some text) \<and>
            \<not> endswith_any fn binary_extensions \<and>
            (\<exists>k\<in>set ks. \<exists>p s. lower text = p @ lower k @ s))"
proof -
  have "scan_repo_for_keywords fs root (PList (map PStr ks)) =
          Inr (scan_walk (map lower ks) (walk (Dir (fs root))))"
    using assms
    by (simp add: scan_repo_for_keywords_def low_kw_of_def lower_each_strs os_walk_def)
  also have "scan_walk (map lower ks) (walk (Dir (fs root))) \<longleftrightarrow>
      (\<exists>es fn text. root_listing fs root = Some es \<and> reachable_file es fn (Some text) \<and>
            \<not> endswith_any fn binary_extensions \<and>
            (\<exists>k\<in>set ks. \<exists>p s. lower text = p @ lower k @ s))"
    unfolding scan_walk_reachable [OF assms] file_hit_iff by blast
  finally show ?thesis .
qed

text \<open>The docstring of the scanner says that it returns true if any keyword appears in the
  files of the repository; a file with an excluded extension is not read, so a keyword that
  appears only in such files is not found.\<close>

lemma scan_images_only:
  "scan_repo_for_keywords images_fs ''repo'' (PList [PStr ''license'']) = Inr False"
  by code_simp

section \<open>The auditor on checklist items\<close>

lemma scan_repo_item:
  assumes "is_checklist_item (PDict d)"
  shows "\<exists>ks. dict_get d ''keywords'' (PList []) = PList (map PStr ks)"
proof (cases "map_of d ''keywords''")
  case None
  then have "dict_get d ''keywords'' (PList []) = PList (map PStr [])"
    by (simp add: dict_get_def)
  then show ?thesis by blast
next
  case (Some v)
  with assms obtain vs where v: "v = PList vs" and "list_all is_str vs"
    by (cases v) auto
  then obtain ks where "vs = map PStr ks" using strs_are_map by blast
  with Some v show ?thesis by (auto simp: dict_get_def)
qed

lemma scan_repo_item_total:
  assumes "is_checklist_item (PDict d)" and "CHR 0x00 \<notin> set root"
  shows "scan_repo_for_keywords fs root (dict_get d ''keywords'' (PList [])) =
           Inr (scan_repo_for_keywords fs root (dict_get d ''keywords'' (PList [])) = Inr True)"
proof -
  obtain ks where "dict_get d ''keywords'' (PList []) = PList (map PStr ks)"
    using scan_repo_item [OF assms(1)] by blast
  then show ?thesis by (simp add: scan_repo_strs [OF assms(2)])
qed

lemma audit_loop_items:
  "\<forall>item\<in>set items. is_checklist_item item \<Longrightarrow> CHR 0x00 \<notin> set root \<Longrightarrow>
     audit_loop fs root items acc = Inr (acc @ map (audit_result fs root) items)"
proof (induction items arbitrary: acc)
  case Nil
  then show ?case by simp
next
  case (Cons item items)
  then obtain d where d: "item = PDict d" by (cases item) auto
  with Cons.prems have "is_checklist_item (PDict d)" by simp
  then have scan: "scan_repo_for_keywords fs root (dict_get d ''keywords'' (PList [])) =
           Inr (scan_repo_for_keywords fs root (dict_get d ''keywords'' (PList [])) = Inr True)"
    using Cons.prems(2) by (rule scan_repo_item_total)
  have "audit_loop fs root (PDict d # items) acc =
          audit_loop fs root items (acc @ [audit_result fs root (PDict d)])"
    by (subst audit_loop.simps, subst scan) simp
  with Cons d show ?case by simp
qed

lemma audit_repo_items:
  "\<forall>item\<in>set items. is_checklist_item item \<Longrightarrow> CHR 0x00 \<notin> set root \<Longrightarrow>
     audit_repo fs root items = Inr (map (audit_result fs root) items)"
  by (simp add: audit_repo_def audit_loop_items)

text \<open>At a root with a NUL character the scan of the first item ends the audit.\<close>

lemma audit_repo_nul:
  assumes "is_checklist_item item" and "CHR 0x00 \<in> set root"
  shows "audit_repo fs root (item # items) = Inl ValueError"
proof -
  from assms(1) obtain d where d: "item = PDict d" by (cases item) auto
  with assms(1) obtain ks where "dict_get d ''keywords'' (PList []) = PList (map PStr ks)"
    using scan_repo_item by blast
  then have "scan_repo_for_keywords fs root (dict_get d ''keywords'' (PList [])) = Inl ValueError"
    using assms(2) by (simp add: scan_repo_nul)
  with d show ?thesis by (simp add: audit_repo_def)
qed

text \<open>Under a root without a NUL character, the auditor does what claims C2, C5 and C6 say:
  one result per item in order with the fields copied; \<^verbatim>\<open>present = False\<close> throughout when
  every reachable file has an excluded extension; and \<^verbatim>\<open>present = False\<close> for an item whose
  keywords are empty or missing.\<close>

lemma audit_repo_valid_root:
  assumes "\<forall>item\<in>set checklist. is_checklist_item item" and "CHR 0x00 \<notin> set root"
  shows "\<exists>rs. audit_repo fs root checklist = Inr rs \<and> length rs = length checklist \<and>
           (\<forall>i<length checklist. \<exists>item. checklist ! i = PDict item \<and>
              rs ! i =
                PDict [(''id'', dict_get item ''id'' PNone),
                       (''title'', dict_get item ''title'' PNone),
                       (''description'', dict_get item ''description'' PNone),
                       (''present'',
                          PBool (scan_repo_for_keywords fs root
                                   (dict_get item ''keywords'' (PList [])) = Inr True)),
                       (''remediation'', dict_get item ''remediation'' PNone)])"
proof -
  have run: "audit_repo fs root checklist = Inr (map (audit_result fs root) checklist)"
    using assms by (rule audit_repo_items)
  have "\<exists>item. checklist ! i = PDict item \<and>
          map (audit_result fs root) checklist ! i =
            PDict [(''id'', dict_get item ''id'' PNone),
                   (''title'', dict_get item ''title'' PNone),
                   (''description'', dict_get item ''description'' PNone),
                   (''present'',
                      PBool (scan_repo_for_keywords fs root
                               (dict_get item ''keywords'' (PList [])) = Inr True)),
                   (''remediation'', dict_get item ''remediation'' PNone)]"
    if "i < length checklist" for i
  proof -
    from that assms(1) have "is_checklist_item (checklist ! i)" by simp
    then obtain item where "checklist ! i = PDict item" by (cases "checklist ! i") auto
    with that show ?thesis by simp
  qed
  with run show ?thesis by simp
qed

lemma audit_repo_no_scanned_file:
  assumes "\<forall>item\<in>set checklist. is_checklist_item item"
    and "CHR 0x00 \<notin> set root"
    and "\<forall>es fn c. root_listing fs root = Some es \<longrightarrow> reachable_file es fn c \<longrightarrow>
           endswith_any fn binary_extensions"
  shows "\<exists>rs. audit_repo fs root checklist = Inr rs \<and> length rs = length checklist \<and>
           (\<forall>r\<in>set rs. py_index r ''present'' = Inr (PBool False))"
proof -
  have run: "audit_repo fs root checklist = Inr (map (audit_result fs root) checklist)"
    using assms(1,2) by (rule audit_repo_items)
  have "py_index (audit_result fs root item) ''present'' = Inr (PBool False)"
    if "item \<in> set checklist" for item
  proof -
    from that assms(1) have item: "is_checklist_item item" by simp
    then obtain d where d: "item = PDict d" by (cases item) auto
    with item obtain ks where "dict_get d ''keywords'' (PList []) = PList (map PStr ks)"
      using scan_repo_item by blast
    then have "scan_repo_for_keywords fs root (dict_get d ''keywords'' (PList [])) = Inr False"
      using assms(3) by (auto simp: scan_repo_strs [OF assms(2)])
    with d show ?thesis by simp
  qed
  with run show ?thesis by simp
qed

lemma audit_repo_empty_keywords:
  assumes "\<forall>x\<in>set checklist. is_checklist_item x"
    and "CHR 0x00 \<notin> set root"
    and "i < length checklist"
    and "checklist ! i = PDict item"
    and "map_of item ''keywords'' = None \<or> map_of item ''keywords'' = Some (PList [])"
  shows "scan_repo_for_keywords fs root (dict_get item ''keywords'' (PList [])) = Inr False \<and>
         (\<exists>rs. audit_repo fs root checklist = Inr rs \<and>
               py_index (rs ! i) ''present'' = Inr (PBool False))"
proof -
  from assms(5) have "dict_get item ''keywords'' (PList []) = PList (map PStr [])"
    by (auto simp: dict_get_def)
  then have scan: "scan_repo_for_keywords fs root (dict_get item ''keywords'' (PList [])) = Inr False"
    by (simp only: scan_repo_strs [OF assms(2)]) simp
  have run: "audit_repo fs root checklist = Inr (map (audit_result fs root) checklist)"
    using assms(1,2) by (rule audit_repo_items)
  from assms(3,4) scan
  have "py_index (map (audit_result fs root) checklist ! i) ''present'' = Inr (PBool False)"
    by simp
  with scan run show ?thesis by simp
qed

section \<open>Claims about the scanner and the auditor\<close>

text \<open>
  Claim C1. For a list of keyword strings, \<^verbatim>\<open>scan_repo_for_keywords\<close> returns true exactly when
  some file reachable from the root, whose name ends in none of the excluded extensions and
  which can be read, has a lower-cased content of which the lower-cased form of a keyword is
  a contiguous part; when the walk completes without such a file it returns false. A file
  that cannot be read is skipped and raises nothing: the scan raises only where the walk
  itself does, at a root string with an embedded NUL character.
\<close>

theorem scan_repo_for_keywords_correct:
  "(scan_repo_for_keywords fs root (PList (map PStr keywords)) = Inr True \<longleftrightarrow>
      (\<exists>es fn text. root_listing fs root = Some es \<and> reachable_file es fn (Some text) \<and>
          \<not> endswith_any fn binary_extensions \<and>
          (\<exists>k\<in>set keywords. \<exists>p s. lower text = p @ lower k @ s))) \<and>
   scan_repo_for_keywords fs root (PList (map PStr keywords)) =
     (if CHR 0x00 \<in> set root then Inl ValueError
      else Inr (\<exists>es fn text. root_listing fs root = Some es \<and> reachable_file es fn (Some text) \<and>
                  \<not> endswith_any fn binary_extensions \<and>
                  (\<exists>k\<in>set keywords. \<exists>p s. lower text = p @ lower k @ s)))"
proof (cases "CHR 0x00 \<in> set root")
  case True
  then have "scan_repo_for_keywords fs root (PList (map PStr keywords)) = Inl ValueError"
    by (rule scan_repo_nul)
  moreover from True have "root_listing fs root = None"
    by (simp add: root_listing_def)
  ultimately show ?thesis using True by simp
next
  case False
  then show ?thesis by (simp add: scan_repo_strs)
qed

theorem scan_repo_for_keywords_correct_witness:
  "scan_repo_for_keywords example_fs ''repo'' (PList (map PStr [''Audit'', ''LICENSE''])) = Inr True \<and>
   (\<exists>es fn text. root_listing example_fs ''repo'' = Some es \<and> reachable_file es fn (Some text) \<and>
       \<not> endswith_any fn binary_extensions \<and>
       (\<exists>k\<in>set [''Audit'', ''LICENSE'']. \<exists>p s. lower text = p @ lower k @ s)) \<and>
   scan_repo_for_keywords example_fs ''repo'' (PList (map PStr [''audit''])) = Inr False \<and>
   scan_repo_for_keywords example_fs nul_root (PList (map PStr [''LICENSE''])) = Inl ValueError"
proof -
  have run: "scan_repo_for_keywords example_fs ''repo'' (PList (map PStr [''Audit'', ''LICENSE''])) = Inr True"
    by code_simp
  have miss: "scan_repo_for_keywords example_fs ''repo'' (PList (map PStr [''audit''])) = Inr False"
    by code_simp
  have nul: "scan_repo_for_keywords example_fs nul_root (PList (map PStr [''LICENSE''])) = Inl ValueError"
    by code_simp
  from scan_repo_for_keywords_correct [of example_fs "''repo''" "[''Audit'', ''LICENSE'']"] run
  have "\<exists>es fn text. root_listing example_fs ''repo'' = Some es \<and> reachable_file es fn (Some text) \<and>
       \<not> endswith_any fn binary_extensions \<and>
       (\<exists>k\<in>set [''Audit'', ''LICENSE'']. \<exists>p s. lower text = p @ lower k @ s)"
    by blast
  with run miss nul show ?thesis by (intro conjI)
qed

text \<open>
  Claim C2 says that \<^verbatim>\<open>audit_repo\<close> returns one result per item for every checklist and root.
  The walk of the scanner (line 26) is outside its \<^verbatim>\<open>try\<close> block: at a root string with an
  embedded NUL character the scan of the first item raises \<^verbatim>\<open>ValueError\<close>, and the audit of a
  checklist with one item returns no result.
\<close>

theorem audit_repo_nul_root_raises:
  "audit_repo example_fs nul_root [license_item] = Inl ValueError"
  by code_simp

text \<open>
  Claim C5 says that a root that does not exist gives \<^verbatim>\<open>present = False\<close> for every item and is
  no error. A root string with an embedded NUL character names no directory, in a file system
  with no file at all, and the audit ends in \<^verbatim>\<open>ValueError\<close>.
\<close>

theorem missing_nul_root_raises:
  "root_listing bare_fs nul_root = None \<and>
   audit_repo bare_fs nul_root [license_item, no_keywords_item] = Inl ValueError"
  by code_simp

text \<open>
  Claim C6 says that an item without keywords gets \<^verbatim>\<open>present = False\<close> for every root. The
  scanner walks the root also when the keyword list is empty: at a root string with an
  embedded NUL character the scan, and with it the audit, ends in \<^verbatim>\<open>ValueError\<close>.
\<close>

theorem empty_keywords_nul_root_raises:
  "scan_repo_for_keywords example_fs nul_root (PList []) = Inl ValueError \<and>
   audit_repo example_fs nul_root [no_keywords_item] = Inl ValueError"
  by code_simp

text \<open>
  Claim C10. When the keywords contain the empty string, the scanner returns true as soon as
  one readable file without an excluded extension is reachable from the root, even an empty
  one; an item with such keywords is then reported present.
\<close>

theorem blank_keyword_always_present:
  assumes "root_listing fs root = Some es"
    and "reachable_file es fn (Some text)"
    and "\<not> endswith_any fn binary_extensions"
    and "[] \<in> set keywords"
  shows "scan_repo_for_keywords fs root (PList (map PStr keywords)) = Inr True \<and>
         (\<forall>item. map_of item ''keywords'' = Some (PList (map PStr keywords)) \<longrightarrow>
            (\<exists>rs. audit_repo fs root [PDict item] = Inr rs \<and>
                  py_index (rs ! 0) ''present'' = Inr (PBool True)))"
proof -
  from assms(1) have valid: "CHR 0x00 \<notin> set root"
    by (auto simp: root_listing_def split: if_splits)
  have "lower text = [] @ lower [] @ lower text" by (simp add: lower_def)
  with assms(4) have "\<exists>k\<in>set keywords. \<exists>p s. lower text = p @ lower k @ s" by blast
  with assms(1-3) have scan: "scan_repo_for_keywords fs root (PList (map PStr keywords)) = Inr True"
    unfolding scan_repo_strs [OF valid] by blast
  have "\<exists>rs. audit_repo fs root [PDict item] = Inr rs \<and> py_index (rs ! 0) ''present'' = Inr (PBool True)"
    if kw: "map_of item ''keywords'' = Some (PList (map PStr keywords))" for item
  proof -
    have "list_all is_str (map PStr keywords)" by (rule list_all_is_str_map)
    with kw have "\<forall>x\<in>set [PDict item]. is_checklist_item x" by simp
    then have "audit_repo fs root [PDict item] = Inr (map (audit_result fs root) [PDict item])"
      using valid by (rule audit_repo_items)
    moreover from kw have "dict_get item ''keywords'' (PList []) = PList (map PStr keywords)"
      by (simp add: dict_get_def)
    ultimately show ?thesis using scan by simp
  qed
  with scan show ?thesis by blast
qed

theorem blank_keyword_always_present_witness:
  "root_listing empty_file_fs ''repo'' = Some [(''empty.txt'', File (Some []))] \<and>
   reachable_file [(''empty.txt'', File (Some []))] ''empty.txt'' (Some []) \<and>
   \<not> endswith_any ''empty.txt'' binary_extensions \<and>
   scan_repo_for_keywords empty_file_fs ''repo'' (PList (map PStr [''audit'', []])) = Inr True \<and>
   (\<exists>rs. audit_repo empty_file_fs ''repo'' [blank_keyword_item] = Inr rs \<and>
         py_index (rs ! 0) ''present'' = Inr (PBool True))"
proof -
  have fs: "root_listing empty_file_fs ''repo'' = Some [(''empty.txt'', File (Some []))]"
    by (simp add: empty_file_fs_def root_listing_def)
  have reach: "reachable_file [(''empty.txt'', File (Some []))] ''empty.txt'' (Some [])"
    by (rule here) simp
  have name: "\<not> endswith_any ''empty.txt'' binary_extensions"
    by (simp add: binary_extensions_def endswith_def)
  have blank: "[] \<in> set [''audit'', []]" by simp
  have kw: "map_of [(''id'', PStr ''C3''), (''keywords'', PList [PStr ''audit'', PStr []])] ''keywords''
              = Some (PList (map PStr [''audit'', []]))"
    by simp
  from blank_keyword_always_present [of empty_file_fs "''repo''", OF fs reach name blank] kw fs reach name
  show ?thesis unfolding blank_keyword_item_def by simp
qed

section \<open>The report generator, line by line\<close>

lemma py_index_Inr: "py_index r k = Inr v \<longleftrightarrow> (\<exists>d. r = PDict d \<and> map_of d k = Some v)"
  by (cases r) (auto split: option.splits)

lemma renderable_iff:
  "renderable r \<longleftrightarrow>
     (\<exists>p i t. py_index r ''present'' = Inr p \<and> py_index r ''id'' = Inr i \<and>
              py_index r ''title'' = Inr t)"
  by (cases r) (auto split: option.splits)

lemma count_present_Inr:
  "count_present rs = Inr n \<Longrightarrow> n = length (filter is_present rs)"
proof (induction rs arbitrary: n)
  case Nil
  then show ?case by simp
next
  case (Cons r rs)
  from Cons.prems obtain p m where p: "py_index r ''present'' = Inr p"
    and m: "count_present rs = Inr m" and n: "n = (if truthy p then 1 else 0) + m"
    by (auto split: sum.splits)
  from p have "is_present r = truthy p"
    by (auto simp: py_index_Inr is_present_def dict_get_def)
  with Cons.IH [OF m] n show ?case by simp
qed

lemma count_present_renderable:
  "\<forall>r\<in>set rs. renderable r \<Longrightarrow> count_present rs = Inr (length (filter is_present rs))"
proof (induction rs)
  case Nil
  then show ?case by simp
next
  case (Cons r rs)
  then obtain p where p: "py_index r ''present'' = Inr p"
    by (auto simp: renderable_iff)
  then have "is_present r = truthy p"
    by (auto simp: py_index_Inr is_present_def dict_get_def)
  with Cons p show ?case by simp
qed

lemma count_present_Inl_iff:
  "(\<exists>n. count_present rs = Inr n) \<longleftrightarrow> (\<forall>r\<in>set rs. \<exists>p. py_index r ''present'' = Inr p)"
  by (induction rs) (auto split: sum.splits)

lemma render_result_renderable:
  assumes "renderable r"
  shows "render_result r s = Inr (s\<lparr>lines := lines s @ section_lines r\<rparr>)"
proof -
  from assms obtain d p i t where r: "r = PDict d" and p: "map_of d ''present'' = Some p"
    and i: "map_of d ''id'' = Some i" and t: "map_of d ''title'' = Some t"
    by (cases r) auto
  show ?thesis
    by (simp add: r p i t render_result_def section_lines_def append_line_def is_present_def
        dict_get_def Let_def)
qed

lemma render_result_Inr: "render_result r s = Inr s' \<Longrightarrow> renderable r"
  unfolding renderable_iff render_result_def by (auto split: sum.splits)

lemma render_loop_renderable:
  "\<forall>r\<in>set rs. renderable r \<Longrightarrow>
     render_loop rs s = Inr (s\<lparr>lines := lines s @ concat (map section_lines rs)\<rparr>)"
  by (induction rs arbitrary: s) (auto simp: render_result_renderable)

lemma render_loop_Inr: "render_loop rs s = Inr s' \<Longrightarrow> \<forall>r\<in>set rs. renderable r"
  by (induction rs arbitrary: s) (auto split: sum.splits dest: render_result_Inr)

lemma render_run_renderable:
  assumes "\<forall>r\<in>set rs. renderable r"
  shows "render_run rs title =
           Inr \<lparr>results = rs, lines = header_lines rs title @ concat (map section_lines rs)\<rparr>"
  using assms
  by (simp add: render_run_def count_present_renderable render_loop_renderable append_line_def
      header_lines_def)

lemma render_run_Inr: "render_run rs title = Inr s \<Longrightarrow> \<forall>r\<in>set rs. renderable r"
  unfolding render_run_def
  by (auto simp: Let_def append_line_def split: sum.splits dest: render_loop_Inr)

lemma generate_renderable:
  "\<forall>r\<in>set rs. renderable r \<Longrightarrow>
     generate_markdown_report rs title =
       Inr (join newline (header_lines rs title @ concat (map section_lines rs)))"
  by (simp add: generate_markdown_report_def render_run_renderable)

lemma generate_Inr: "generate_markdown_report rs title = Inr doc \<Longrightarrow> \<forall>r\<in>set rs. renderable r"
  unfolding generate_markdown_report_def by (auto split: sum.splits dest: render_run_Inr)

lemma digit_inj: "m < 10 \<Longrightarrow> n < 10 \<Longrightarrow> ''0123456789'' ! m = ''0123456789'' ! n \<Longrightarrow> m = n"
proof -
  assume "m < 10" "n < 10" "''0123456789'' ! m = ''0123456789'' ! n"
  moreover have "distinct ''0123456789''" by simp
  ultimately show ?thesis by (simp add: nth_eq_iff_index_eq)
qed

lemma show_nat_not_Nil: "show_nat n \<noteq> []"
  by (subst show_nat.simps) simp

lemma show_nat_inj: "show_nat m = show_nat n \<Longrightarrow> m = n"
proof (induction m arbitrary: n rule: show_nat.induct)
  case (1 m)
  show ?case
  proof (cases "m < 10")
    case True
    show ?thesis
    proof (cases "n < 10")
      case n: True
      from "1.prems" True n have "''0123456789'' ! m = ''0123456789'' ! n"
        by (simp add: show_nat.simps [of m] show_nat.simps [of n])
      with True n show ?thesis by (rule digit_inj)
    next
      case False
      with "1.prems" True have "show_nat (n div 10) = []"
        by (simp add: show_nat.simps [of m] show_nat.simps [of n])
      then show ?thesis by (simp add: show_nat_not_Nil)
    qed
  next
    case False
    show ?thesis
    proof (cases "n < 10")
      case True
      with "1.prems" False have "show_nat (m div 10) = []"
        by (simp add: show_nat.simps [of m] show_nat.simps [of n])
      then show ?thesis by (simp add: show_nat_not_Nil)
    next
      case n: False
      from "1.prems" False n
      have eq: "show_nat (m div 10) = show_nat (n div 10)"
        and d: "''0123456789'' ! (m mod 10) = ''0123456789'' ! (n mod 10)"
        by (simp_all add: show_nat.simps [of m] show_nat.simps [of n])
      from "1.IH" [OF False eq] have "m div 10 = n div 10" .
      moreover from d have "m mod 10 = n mod 10" by (intro digit_inj) simp_all
      ultimately show ?thesis by (metis div_mult_mod_eq)
    qed
  qed
qed

lemma null_description_renders_None:
  "generate_markdown_report [license_pass] ''T'' =
     Inr (join newline [''# T'', [], ''- Total checks: 1'', ''- Checks detected (heuristic pass): 1'', [],
            ''## C1 - Has license  '', ''- Status: **PASS**'', ''- Description: None'', []])"
  by code_simp

section \<open>The loader, file by file\<close>

lemma load_files_items: "load_files names acc = acc @ concat (map file_items names)"
  by (induction names acc rule: load_files.induct)
     (simp_all add: file_items_def split: option.splits sum.splits)

lemma load_checklists_items:
  "fs path = Listing names \<Longrightarrow> load_checklists fs path = Inr (concat (map file_items names))"
  by (simp add: load_checklists_def load_files_items)

lemma load_checklists_no_dir: "fs path = NoDir \<Longrightarrow> load_checklists fs path = Inr []"
  by (simp add: load_checklists_def)

lemma load_checklists_listable:
  "fs path \<noteq> Unlistable \<Longrightarrow> \<exists>items. load_checklists fs path = Inr items"
  by (cases "fs path") (auto simp: load_checklists_def)

lemma file_items_unloaded: "\<not> endswith fname ''.json'' \<or> loaded = None \<Longrightarrow> file_items (fname, loaded) = []"
  by (auto simp: file_items_def)

lemma load_checklists_skips_unloaded:
  assumes "fs path = Listing (before @ (fname, None) # after)"
    and "fs' path = Listing (before @ after)"
  shows "load_checklists fs path = load_checklists fs' path"
  using assms by (simp add: load_checklists_items file_items_def)

lemma load_checklists_nothing_loaded:
  assumes "fs path = Listing names"
    and "\<forall>f\<in>set names. \<not> endswith (fst f) ''.json'' \<or> snd f = None"
  shows "load_checklists fs path = Inr []"
proof -
  from assms(2) have "\<forall>f\<in>set names. file_items f = []"
    by (auto simp: file_items_def)
  then have "concat (map file_items names) = []" by simp
  with assms(1) show ?thesis by (simp add: load_checklists_items)
qed

text \<open>A file that holds a JSON string loads, and \<^verbatim>\<open>extend\<close> adds its characters as items.\<close>

lemma load_string_file_dir:
  "load_checklists string_file_dir ''checklists'' = Inr [PStr ''a'', PStr ''b'']"
  by code_simp

lemma load_mixed_dir: "load_checklists mixed_dir ''checklists'' = Inr [license_item]"
  by code_simp

section \<open>Claims about the report generator\<close>

text \<open>
  Claim C3, as stated: \<^verbatim>\<open>generate_markdown_report\<close> raises nothing on any result sequence, also
  when \<^verbatim>\<open>id\<close> or \<^verbatim>\<open>title\<close> is absent. It fails on a result without the key \<^verbatim>\<open>id\<close>: line 64 reads
  \<^verbatim>\<open>r["id"]\<close>, and the report ends in \<^verbatim>\<open>KeyError\<close>.
\<close>

theorem render_missing_id_counterexample:
  "generate_markdown_report [result_without_id] ''Compliance Report'' = Inl (KeyError ''id'')"
  by code_simp

text \<open>
  Claim C3, amended. On every sequence of results that are dictionaries with the keys
  \<^verbatim>\<open>present\<close>, \<^verbatim>\<open>id\<close> and \<^verbatim>\<open>title\<close>, as \<^verbatim>\<open>audit_repo\<close> builds them, the report is produced and
  nothing is raised; a result without the key \<^verbatim>\<open>description\<close> has the description line with
  nothing after the label, and a result that is not present and has no key \<^verbatim>\<open>remediation\<close> has
  the remediation line with nothing after the label.
\<close>

theorem render_total_on_results:
  assumes "\<forall>r\<in>set rs. renderable r"
  shows "generate_markdown_report rs title =
           Inr (join newline (header_lines rs title @ concat (map section_lines rs))) \<and>
         (\<forall>d. PDict d \<in> set rs \<and> map_of d ''description'' = None \<longrightarrow>
              section_lines (PDict d) ! 2 = ''- Description: '') \<and>
         (\<forall>d. PDict d \<in> set rs \<and> \<not> is_present (PDict d) \<and> map_of d ''remediation'' = None \<longrightarrow>
              section_lines (PDict d) ! 3 = ''- Remediation: '')"
  using assms by (simp add: generate_renderable section_lines_def dict_get_def)

theorem render_total_on_results_witness:
  "renderable license_fail \<and>
   generate_markdown_report [license_fail] ''Compliance Report'' =
     Inr (join newline (header_lines [license_fail] ''Compliance Report'' @
                        concat (map section_lines [license_fail]))) \<and>
   section_lines license_fail ! 2 = ''- Description: ''"
proof -
  have ok: "\<forall>r\<in>set [license_fail]. renderable r"
    by (simp add: license_fail_def)
  have absent: "map_of [(''id'', PStr ''C1''), (''title'', PStr ''Has license''),
            (''present'', PBool False), (''remediation'', PStr ''Add LICENSE file'')] ''description'' = None"
    by simp
  from render_total_on_results [OF ok, of "''Compliance Report''"] ok absent
  show ?thesis unfolding license_fail_def by simp
qed

text \<open>
  Claim C4. In a report that is produced, the line \<^verbatim>\<open>Total checks\<close> shows the length of the result
  sequence, the line \<^verbatim>\<open>Checks detected\<close> the number of results whose \<^verbatim>\<open>present\<close> is true, and the
  second number is at most the first.
\<close>

theorem report_summary_counts:
  assumes "generate_markdown_report rs title = Inr doc"
  shows "\<exists>sections.
           doc = join newline
                  ([''# '' @ title,
                    [],
                    ''- Total checks: '' @ show_nat (length rs),
                    ''- Checks detected (heuristic pass): '' @ show_nat (length (filter is_present rs)),
                    []] @ sections) \<and>
           length (filter is_present rs) \<le> length rs"
proof -
  from assms have "\<forall>r\<in>set rs. renderable r" by (rule generate_Inr)
  then have "generate_markdown_report rs title =
       Inr (join newline (header_lines rs title @ concat (map section_lines rs)))"
    by (rule generate_renderable)
  with assms have "doc = join newline (header_lines rs title @ concat (map section_lines rs))"
    by simp
  then show ?thesis unfolding header_lines_def by (intro exI conjI) (assumption, simp)
qed

theorem report_summary_counts_witness:
  "generate_markdown_report [license_pass, license_fail] ''T'' =
     Inr (join newline [''# T'', [], ''- Total checks: 2'', ''- Checks detected (heuristic pass): 1'', [],
            ''## C1 - Has license  '', ''- Status: **PASS**'', ''- Description: None'', [],
            ''## C1 - Has license  '', ''- Status: **FAIL**'', ''- Description: '',
            ''- Remediation: Add LICENSE file'', []]) \<and>
   (\<exists>sections.
      join newline [''# T'', [], ''- Total checks: 2'', ''- Checks detected (heuristic pass): 1'', [],
            ''## C1 - Has license  '', ''- Status: **PASS**'', ''- Description: None'', [],
            ''## C1 - Has license  '', ''- Status: **FAIL**'', ''- Description: '',
            ''- Remediation: Add LICENSE file'', []] =
      join newline
        ([''# '' @ ''T'', [], ''- Total checks: '' @ show_nat (length [license_pass, license_fail]),
          ''- Checks detected (heuristic pass): '' @
             show_nat (length (filter is_present [license_pass, license_fail])),
          []] @ sections) \<and>
      length (filter is_present [license_pass, license_fail]) \<le> length [license_pass, license_fail])"
proof -
  have run: "generate_markdown_report [license_pass, license_fail] ''T'' =
     Inr (join newline [''# T'', [], ''- Total checks: 2'', ''- Checks detected (heuristic pass): 1'', [],
            ''## C1 - Has license  '', ''- Status: **PASS**'', ''- Description: None'', [],
            ''## C1 - Has license  '', ''- Status: **FAIL**'', ''- Description: '',
            ''- Remediation: Add LICENSE file'', []])"
    by code_simp
  from run report_summary_counts [OF run] show ?thesis by (rule conjI)
qed

text \<open>
  Claim C8. A report that is produced is the heading and summary followed by one section per
  result, in the order of the results. A section is the header line with \<^verbatim>\<open>id\<close> and \<^verbatim>\<open>title\<close>, the
  status line with \<^verbatim>\<open>PASS\<close> for a present result and \<^verbatim>\<open>FAIL\<close> otherwise, the description line,
  the remediation line exactly when the result is not present, and an empty line.
\<close>

theorem report_sections_in_order:
  assumes "generate_markdown_report rs title = Inr doc"
  shows "doc = join newline (header_lines rs title @ concat (map section_lines rs)) \<and>
         (\<forall>r\<in>set rs.
            section_lines r =
              (if is_present r
               then [''## '' @ py_str (field r ''id'' PNone) @ '' - '' @ py_str (field r ''title'' PNone) @ ''  '',
                     ''- Status: **PASS**'',
                     ''- Description: '' @ py_str (field r ''description'' (PStr [])),
                     []]
               else [''## '' @ py_str (field r ''id'' PNone) @ '' - '' @ py_str (field r ''title'' PNone) @ ''  '',
                     ''- Status: **FAIL**'',
                     ''- Description: '' @ py_str (field r ''description'' (PStr [])),
                     ''- Remediation: '' @ py_str (field r ''remediation'' (PStr [])),
                     []]))"
proof -
  from assms have "\<forall>r\<in>set rs. renderable r" by (rule generate_Inr)
  then have "generate_markdown_report rs title =
       Inr (join newline (header_lines rs title @ concat (map section_lines rs)))"
    by (rule generate_renderable)
  with assms have "doc = join newline (header_lines rs title @ concat (map section_lines rs))"
    by simp
  then show ?thesis by (simp add: section_lines_def)
qed

theorem report_sections_in_order_witness:
  "join newline [''# T'', [], ''- Total checks: 2'', ''- Checks detected (heuristic pass): 1'', [],
            ''## C1 - Has license  '', ''- Status: **PASS**'', ''- Description: None'', [],
            ''## C1 - Has license  '', ''- Status: **FAIL**'', ''- Description: '',
            ''- Remediation: Add LICENSE file'', []] =
   join newline (header_lines [license_pass, license_fail] ''T'' @
                 concat (map section_lines [license_pass, license_fail])) \<and>
   section_lines license_pass =
     [''## C1 - Has license  '', ''- Status: **PASS**'', ''- Description: None'', []] \<and>
   section_lines license_fail =
     [''## C1 - Has license  '', ''- Status: **FAIL**'', ''- Description: '',
      ''- Remediation: Add LICENSE file'', []]"
proof -
  have run: "generate_markdown_report [license_pass, license_fail] ''T'' =
     Inr (join newline [''# T'', [], ''- Total checks: 2'', ''- Checks detected (heuristic pass): 1'', [],
            ''## C1 - Has license  '', ''- Status: **PASS**'', ''- Description: None'', [],
            ''## C1 - Has license  '', ''- Status: **FAIL**'', ''- Description: '',
            ''- Remediation: Add LICENSE file'', []])"
    by code_simp
  have pass: "section_lines license_pass =
     [''## C1 - Has license  '', ''- Status: **PASS**'', ''- Description: None'', []]"
    by code_simp
  have fail: "section_lines license_fail =
     [''## C1 - Has license  '', ''- Status: **FAIL**'', ''- Description: '',
      ''- Remediation: Add LICENSE file'', []]"
    by code_simp
  from report_sections_in_order [OF run]
  have doc: "join newline [''# T'', [], ''- Total checks: 2'', ''- Checks detected (heuristic pass): 1'', [],
            ''## C1 - Has license  '', ''- Status: **PASS**'', ''- Description: None'', [],
            ''## C1 - Has license  '', ''- Status: **FAIL**'', ''- Description: '',
            ''- Remediation: Add LICENSE file'', []] =
   join newline (header_lines [license_pass, license_fail] ''T'' @
                 concat (map section_lines [license_pass, license_fail]))"
    by (rule conjunct1)
  from doc pass fail show ?thesis by (intro conjI)
qed

section \<open>Claim about the loader\<close>

text \<open>
  Claim C7 says that \<^verbatim>\<open>load_checklists\<close> never fails. The call \<^verbatim>\<open>os.listdir(path)\<close> on line 10 is
  outside the \<^verbatim>\<open>try\<close> block: for a directory that exists and cannot be listed, the loader ends
  in \<^verbatim>\<open>OSError\<close>.
\<close>

theorem load_checklists_unlistable:
  "load_checklists unlistable_dir ''checklists'' = Inl OSError"
  by (simp add: load_checklists_def unlistable_dir_def)

end
